theory Spec2Isabelle
  imports Complex_Main "HOL-Library.Word"
begin

unbundle bit_operations_syntax

section \<open>Panics\<close>

text \<open>
  Every Go \<^verbatim>\<open>panic\<close> that the modelled functions can reach, whether written in the
  source (\<^verbatim>\<open>panic(fmt.Errorf(...))\<close>) or raised by the runtime (index and slice bounds,
  integer division by zero, a negative capacity given to \<^verbatim>\<open>make\<close>), is a value of
  this type. A function that can panic returns \<open>panic + 'a\<close>, with \<open>Inl\<close> the panic.
\<close>

datatype panic =
    PanicWrapWidth
  | PanicIndexOutOfRange
  | PanicSliceBounds
  | PanicDivideByZero
  | PanicMakeSliceCap
  | PanicDownsampleDefault
  | PanicUnhandledColorType
  | PanicUnhandledTerminalColorCount
  | PanicContrast

section \<open>Cells and whitespace\<close>

text \<open>
  A Go \<^verbatim>\<open>rune\<close> is an \<^verbatim>\<open>int32\<close>. \<^verbatim>\<open>twin.Cell\<close> is a struct of a rune and a style.
  The wrapping code copies styles and never looks into them, so the style is a type
  parameter.
\<close>

type_synonym rune = "32 word"

record 'style Cell =
  Rune :: rune
  Style :: 'style

text \<open>
  \<^verbatim>\<open>unicode.IsSpace\<close> of the Go standard library: in Latin-1 the runes tab, line feed,
  vertical tab, form feed, carriage return, space, U+0085 and U+00A0; above Latin-1 the
  runes with the Unicode White_Space property. The first test is \<^verbatim>\<open>uint32(r) <= MaxLatin1\<close>,
  an unsigned comparison, as \<open>\<le>\<close> on words is.
\<close>

definition IsSpace :: "rune \<Rightarrow> bool" where
  "IsSpace r =
     (if r \<le> 0xFF then
        r = 0x09 \<or> r = 0x0A \<or> r = 0x0B \<or> r = 0x0C \<or> r = 0x0D \<or> r = 0x20 \<or> r = 0x85 \<or> r = 0xA0
      else
        r = 0x1680 \<or> (0x2000 \<le> r \<and> r \<le> 0x200A) \<or> r = 0x2028 \<or> r = 0x2029 \<or>
        r = 0x202F \<or> r = 0x205F \<or> r = 0x3000)"

text \<open>\<^verbatim>\<open>const NO_BREAK_SPACE = '\xa0'\<close>\<close>

definition NO_BREAK_SPACE :: rune where
  "NO_BREAK_SPACE = 0xA0"

text \<open>
  Modelled from the spec: \<^verbatim>\<open>twin.TrimSpaceLeft\<close> and \<^verbatim>\<open>twin.TrimSpaceRight\<close>, which
  \<^verbatim>\<open>wrapLine\<close> calls; their source is not part of this development. The specification
  describes them as trimming the leading, respectively trailing, run of whitespace
  cells, and counts the non-breaking space as a whitespace character.
\<close>

definition TrimSpaceLeft :: "'style Cell list \<Rightarrow> 'style Cell list" where
  "TrimSpaceLeft cells = dropWhile (\<lambda>cell. IsSpace (Rune cell)) cells"

definition TrimSpaceRight :: "'style Cell list \<Rightarrow> 'style Cell list" where
  "TrimSpaceRight cells = rev (dropWhile (\<lambda>cell. IsSpace (Rune cell)) (rev cells))"

section \<open>The line wrapper of pager.go\<close>

text \<open>
  The loop of \<^verbatim>\<open>getWrapWidth\<close>:
  \<^verbatim>\<open>for nextIndex := maxWrapWidth; nextIndex > 0; nextIndex-- { ... }\<close>
  with \<^verbatim>\<open>return maxWrapWidth\<close> after it. The read \<^verbatim>\<open>line[nextIndex]\<close> panics outside
  the slice.
\<close>

fun getWrapWidth_loop :: "'style Cell list \<Rightarrow> int \<Rightarrow> nat \<Rightarrow> panic + int" where
  "getWrapWidth_loop line maxWrapWidth 0 = Inr maxWrapWidth"
| "getWrapWidth_loop line maxWrapWidth (Suc n) =
     (if length line \<le> Suc n then Inl PanicIndexOutOfRange
      else let char = Rune (line ! Suc n) in
        if \<not> IsSpace char then getWrapWidth_loop line maxWrapWidth n
        else if char = NO_BREAK_SPACE then getWrapWidth_loop line maxWrapWidth n
        else Inr (int (Suc n)))"

definition getWrapWidth :: "'style Cell list \<Rightarrow> int \<Rightarrow> panic + int" where
  "getWrapWidth line maxWrapWidth =
     (if int (length line) \<le> maxWrapWidth then Inl PanicWrapWidth
      else getWrapWidth_loop line maxWrapWidth (nat maxWrapWidth))"

text \<open>Go's integer division truncates towards zero.\<close>

definition go_div :: "int \<Rightarrow> int \<Rightarrow> int" where
  "go_div a b = sgn a * sgn b * (\<bar>a\<bar> div \<bar>b\<bar>)"

text \<open>
  The body of \<^verbatim>\<open>wrapLine\<close> from its \<^verbatim>\<open>for len(line) > width\<close> loop to the return. The
  slice expressions \<^verbatim>\<open>line[:wrapWidth]\<close> and \<^verbatim>\<open>line[wrapWidth:]\<close> panic when the bound is
  negative or beyond the slice. A bound of zero can only come from a width of zero,
  which \<^verbatim>\<open>wrapLine\<close> never passes on (it has divided by the width before); the model
  returns the slice panic there as well.
\<close>

function wrapLine_loop ::
  "int \<Rightarrow> 'style Cell list list \<Rightarrow> 'style Cell list \<Rightarrow> panic + 'style Cell list list" where
  "wrapLine_loop width wrapped line =
     (if int (length line) > width then
        (case getWrapWidth line width of
           Inl e \<Rightarrow> Inl e
         | Inr wrapWidth \<Rightarrow>
             if wrapWidth \<le> 0 \<or> int (length line) < wrapWidth then Inl PanicSliceBounds
             else
               let firstPart = take (nat wrapWidth) line;
                   firstPart = (if length wrapped > 0 then TrimSpaceLeft firstPart else firstPart)
               in wrapLine_loop width (wrapped @ [TrimSpaceRight firstPart])
                    (TrimSpaceLeft (drop (nat wrapWidth) line)))
      else
        let line = (if length wrapped > 0 then TrimSpaceLeft line else line)
        in if length line > 0 then Inr (wrapped @ [TrimSpaceRight line]) else Inr wrapped)"
  by pat_completeness auto
termination
proof (relation "measure (\<lambda>(width, wrapped, line). length line)", goal_cases)
  case 1
  show ?case by simp
next
  case (2 width wrapped line wrapWidth firstPart firstPart')
  have "length (TrimSpaceLeft (drop (nat wrapWidth) line)) \<le> length (drop (nat wrapWidth) line)"
    unfolding TrimSpaceLeft_def by (rule length_dropWhile_le)
  with 2 show ?case by auto
qed

declare wrapLine_loop.simps [simp del]

text \<open>
  \<^verbatim>\<open>wrapLine\<close>. Between the trim and the loop the source evaluates
  \<^verbatim>\<open>make([][]twin.Cell, 0, len(line)/width)\<close>: a width of zero is an integer division by
  zero, and a negative quotient is a capacity out of range; both panic.
\<close>

definition wrapLine :: "int \<Rightarrow> 'style Cell list \<Rightarrow> panic + 'style Cell list list" where
  "wrapLine width line =
     (if length line = 0 then Inr [[]]
      else
        let line = TrimSpaceRight line in
        if width = 0 then Inl PanicDivideByZero
        else if go_div (int (length line)) width < 0 then Inl PanicMakeSliceCap
        else wrapLine_loop width [] line)"

section \<open>The line wrapper of the second file\<close>

text \<open>
  Package \<^verbatim>\<open>m\<close> holds a second definition of \<^verbatim>\<open>getWrapWidth\<close> and \<^verbatim>\<open>wrapLine\<close>, in
  a file of its own; its definitions carry the suffix \<open>part000\<close> here. Its
  \<^verbatim>\<open>getWrapWidth\<close> has no loop: after the same check it returns \<^verbatim>\<open>maxWrapWidth\<close>. Its
  \<^verbatim>\<open>wrapLine\<close> is, line by line, the text of the one in pager.go.
\<close>

definition getWrapWidth_part000 :: "'style Cell list \<Rightarrow> int \<Rightarrow> panic + int" where
  "getWrapWidth_part000 line maxWrapWidth =
     (if int (length line) \<le> maxWrapWidth then Inl PanicWrapWidth
      else Inr maxWrapWidth)"

function wrapLine_part000_loop ::
  "int \<Rightarrow> 'style Cell list list \<Rightarrow> 'style Cell list \<Rightarrow> panic + 'style Cell list list" where
  "wrapLine_part000_loop width wrapped line =
     (if int (length line) > width then
        (case getWrapWidth_part000 line width of
           Inl e \<Rightarrow> Inl e
         | Inr wrapWidth \<Rightarrow>
             if wrapWidth \<le> 0 \<or> int (length line) < wrapWidth then Inl PanicSliceBounds
             else
               let firstPart = take (nat wrapWidth) line;
                   firstPart = (if length wrapped > 0 then TrimSpaceLeft firstPart else firstPart)
               in wrapLine_part000_loop width (wrapped @ [TrimSpaceRight firstPart])
                    (TrimSpaceLeft (drop (nat wrapWidth) line)))
      else
        let line = (if length wrapped > 0 then TrimSpaceLeft line else line)
        in if length line > 0 then Inr (wrapped @ [TrimSpaceRight line]) else Inr wrapped)"
  by pat_completeness auto
termination
proof (relation "measure (\<lambda>(width, wrapped, line). length line)", goal_cases)
  case 1
  show ?case by simp
next
  case (2 width wrapped line wrapWidth firstPart firstPart')
  have "length (TrimSpaceLeft (drop (nat wrapWidth) line)) \<le> length (drop (nat wrapWidth) line)"
    unfolding TrimSpaceLeft_def by (rule length_dropWhile_le)
  with 2 show ?case by auto
qed

declare wrapLine_part000_loop.simps [simp del]

definition wrapLine_part000 :: "int \<Rightarrow> 'style Cell list \<Rightarrow> panic + 'style Cell list list" where
  "wrapLine_part000 width line =
     (if length line = 0 then Inr [[]]
      else
        let line = TrimSpaceRight line in
        if width = 0 then Inl PanicDivideByZero
        else if go_div (int (length line)) width < 0 then Inl PanicMakeSliceCap
        else wrapLine_part000_loop width [] line)"

text \<open>
  A legal break point, as the loop of \<^verbatim>\<open>getWrapWidth\<close> in pager.go tests it: a cell
  whose rune is whitespace and is not the non-breaking space.
\<close>

definition breakable :: "'style Cell \<Rightarrow> bool" where
  "breakable cell = (IsSpace (Rune cell) \<and> Rune cell \<noteq> NO_BREAK_SPACE)"



section \<open>Colors (twin/colors.go)\<close>

text \<open>
  \<^verbatim>\<open>type Color uint32\<close> and \<^verbatim>\<open>type ColorType uint8\<close>: the color type sits in the top
  byte of a color, the value in the low 24 bits. The constants are an \<^verbatim>\<open>iota\<close> block.
\<close>

type_synonym Color = "32 word"
type_synonym ColorType = "8 word"

definition ColorTypeDefault :: ColorType where
  "ColorTypeDefault = 0"

definition ColorType8 :: ColorType where
  "ColorType8 = 1"

definition ColorType16 :: ColorType where
  "ColorType16 = 2"

definition ColorType256 :: ColorType where
  "ColorType256 = 3"

definition ColorType24bit :: ColorType where
  "ColorType24bit = 4"

definition newColor :: "ColorType \<Rightarrow> 32 word \<Rightarrow> Color" where
  "newColor colorType v = v OR push_bit 24 (ucast colorType)"

definition ColorDefault :: Color where
  "ColorDefault = newColor ColorTypeDefault 0"

text \<open>
  \<^verbatim>\<open>NewColor16\<close> takes a Go \<^verbatim>\<open>int\<close> and converts it with \<^verbatim>\<open>uint32(...)\<close>, which keeps the
  low 32 bits of the two's complement representation, as \<open>word_of_int\<close> does.
\<close>

definition NewColor16 :: "int \<Rightarrow> Color" where
  "NewColor16 colorNumber0to15 = newColor ColorType16 (word_of_int colorNumber0to15)"

definition NewColor256 :: "8 word \<Rightarrow> Color" where
  "NewColor256 colorNumber = newColor ColorType256 (ucast colorNumber)"

definition NewColor24Bit :: "8 word \<Rightarrow> 8 word \<Rightarrow> 8 word \<Rightarrow> Color" where
  "NewColor24Bit red green blue =
     newColor ColorType24bit
       (push_bit 16 (ucast red) + push_bit 8 (ucast green) + push_bit 0 (ucast blue))"

definition NewColorHex :: "32 word \<Rightarrow> Color" where
  "NewColorHex rgb = newColor ColorType24bit rgb"

definition ColorType :: "Color \<Rightarrow> ColorType" where
  "ColorType color = ucast (drop_bit 24 color)"

definition colorValue :: "Color \<Rightarrow> 32 word" where
  "colorValue color = color AND 0xffffff"

text \<open>
  \<^verbatim>\<open>fmt.Sprint\<close> of an unsigned integer is its decimal numeral. \<^verbatim>\<open>fmt.Sprint\<close> puts a
  space between two operands only when neither is a string; in every call of
  \<^verbatim>\<open>ansiString\<close> each number stands between strings, so the result is the concatenation.
\<close>

function decimal :: "nat \<Rightarrow> string" where
  "decimal n = (if n < 10 then [char_of (48 + n)]
                else decimal (n div 10) @ [char_of (48 + n mod 10)])"
  by pat_completeness auto
termination
  by (relation "measure (\<lambda>n. n)") auto

declare decimal.simps [simp del]

text \<open>
  Modelled from the spec: \<^verbatim>\<open>color256ToRGB\<close>, which \<^verbatim>\<open>to24Bit\<close> and \<^verbatim>\<open>downsampleTo\<close>
  call; its source is not part of this development. The specification describes it as a
  fixed reference palette: the standard 16-color table for the indices 0 to 15, the
  6 x 6 x 6 color cube for 16 to 231 and a 24-step grayscale ramp for 232 to 255. The
  specification names the tables and not their entries; the model takes the entries of
  the usual 256-color terminal palette: the levels 0x00, 0x80, 0xc0 and 0xff in the
  16-color table, the cube levels 0x00, 0x5f, 0x87, 0xaf, 0xd7, 0xff and the grays
  8, 18, ..., 238.
\<close>

definition standardColors :: "(8 word \<times> 8 word \<times> 8 word) list" where
  "standardColors =
     [(0x00, 0x00, 0x00), (0x80, 0x00, 0x00), (0x00, 0x80, 0x00), (0x80, 0x80, 0x00),
      (0x00, 0x00, 0x80), (0x80, 0x00, 0x80), (0x00, 0x80, 0x80), (0xc0, 0xc0, 0xc0),
      (0x80, 0x80, 0x80), (0xff, 0x00, 0x00), (0x00, 0xff, 0x00), (0xff, 0xff, 0x00),
      (0x00, 0x00, 0xff), (0xff, 0x00, 0xff), (0x00, 0xff, 0xff), (0xff, 0xff, 0xff)]"

definition cubeComponents :: "8 word list" where
  "cubeComponents = [0x00, 0x5f, 0x87, 0xaf, 0xd7, 0xff]"

definition color256ToRGB :: "8 word \<Rightarrow> 8 word \<times> 8 word \<times> 8 word" where
  "color256ToRGB color256 =
     (if color256 < 16 then standardColors ! unat color256
      else if 232 \<le> color256 then
        let gray = (color256 - 232) * 10 + 8 in (gray, gray, gray)
      else
        let color0_to_215 = unat (color256 - 16)
        in (cubeComponents ! ((color0_to_215 div 36) mod 6),
            cubeComponents ! ((color0_to_215 div 6) mod 6),
            cubeComponents ! (color0_to_215 mod 6)))"

text \<open>
  \<^verbatim>\<open>chroma.Colour.Distance\<close> of the library github.com/alecthomas/chroma, which
  \<^verbatim>\<open>Distance\<close> wraps: the formula of www.compuphase.com/cmetric.htm, computed on
  \<^verbatim>\<open>int64\<close> values (none of which can overflow) up to the final square root:
  \<^verbatim>\<open>rmean := (ar + br) / 2\<close>, \<^verbatim>\<open>r := ar - br\<close>, \<^verbatim>\<open>g := ag - bg\<close>, \<^verbatim>\<open>b := ab - bb\<close>,
  \<^verbatim>\<open>math.Sqrt(float64((((512+rmean)*r*r)>>8) + 4*g*g + (((767-rmean)*b*b)>>8)))\<close>.
  The constant 764.8333151739665 of \<^verbatim>\<open>Distance\<close> is this value for black and white.

  A \<^verbatim>\<open>float64\<close> is modelled by a real number. No claim below is about the digits of a
  distance; the code only compares distances with \<^verbatim>\<open><\<close>, and the distances compared are
  square roots of integers below \<open>2\<^sup>2\<^sup>0\<close> divided by one constant, which rounding to
  \<^verbatim>\<open>float64\<close> keeps in their order.
\<close>

definition chromaDistanceSquared ::
  "8 word \<times> 8 word \<times> 8 word \<Rightarrow> 8 word \<times> 8 word \<times> 8 word \<Rightarrow> int" where
  "chromaDistanceSquared c e2 =
     (case c of (cr, cg, cb) \<Rightarrow> case e2 of (er, eg, eb) \<Rightarrow>
        let ar = uint cr; ag = uint cg; ab = uint cb;
            br = uint er; bg = uint eg; bb = uint eb;
            rmean = (ar + br) div 2;
            r = ar - br;
            g = ag - bg;
            b = ab - bb
        in drop_bit 8 ((512 + rmean) * r * r) + 4 * g * g + drop_bit 8 ((767 - rmean) * b * b))"

definition chromaDistance ::
  "8 word \<times> 8 word \<times> 8 word \<Rightarrow> 8 word \<times> 8 word \<times> 8 word \<Rightarrow> real" where
  "chromaDistance c e2 = sqrt (real_of_int (chromaDistanceSquared c e2))"

definition maxDistance :: real where
  "maxDistance = 764.8333151739665"

text \<open>\<^verbatim>\<open>math.MaxFloat64\<close>, the largest finite \<^verbatim>\<open>float64\<close>.\<close>

definition MaxFloat64 :: real where
  "MaxFloat64 = (2 ^ 53 - 1) * 2 ^ 971"

text \<open>The three channels of a color value, as \<^verbatim>\<open>Distance\<close> passes them to \<^verbatim>\<open>chroma.NewColour\<close>.\<close>

definition channels :: "Color \<Rightarrow> 8 word \<times> 8 word \<times> 8 word" where
  "channels color =
     (ucast (drop_bit 16 (colorValue color) AND 0xff),
      ucast (drop_bit 8 (colorValue color) AND 0xff),
      ucast (colorValue color AND 0xff))"

definition Distance :: "Color \<Rightarrow> Color \<Rightarrow> panic + real" where
  "Distance color other =
     (if ColorType color \<noteq> ColorType24bit then Inl PanicContrast
      else
        let baseColor = channels color;
            otherColor = channels other
        in Inr (chromaDistance baseColor otherColor / maxDistance))"

definition to24Bit :: "Color \<Rightarrow> panic + Color" where
  "to24Bit color =
     (if ColorType color = ColorType24bit then Inr color
      else if ColorType color = ColorType8 \<or> ColorType color = ColorType16 \<or>
              ColorType color = ColorType256 then
        (case color256ToRGB (ucast (colorValue color)) of
           (r0, g0, b0) \<Rightarrow> Inr (NewColor24Bit r0 g0 b0))
      else Inl PanicUnhandledColorType)"

text \<open>
  The scan of \<^verbatim>\<open>downsampleTo\<close>: \<^verbatim>\<open>for i := 0; i <= scanRange; i++\<close>, with the best
  match and its distance as the loop state.
\<close>

function downsampleTo_loop :: "Color \<Rightarrow> nat \<Rightarrow> nat \<Rightarrow> nat \<Rightarrow> real \<Rightarrow> panic + nat" where
  "downsampleTo_loop target scanRange i bestMatch bestDistance =
     (if i \<le> scanRange then
        (case color256ToRGB (of_nat i) of (r, g, b) \<Rightarrow>
           let candidate = NewColor24Bit r g b in
           case Distance target candidate of
             Inl e \<Rightarrow> Inl e
           | Inr distance \<Rightarrow>
               if distance < bestDistance
               then downsampleTo_loop target scanRange (i + 1) i distance
               else downsampleTo_loop target scanRange (i + 1) bestMatch bestDistance)
      else Inr bestMatch)"
  by pat_completeness auto
termination
  by (relation "measure (\<lambda>(target, scanRange, i, bestMatch, bestDistance). scanRange + 1 - i)")
     auto

declare downsampleTo_loop.simps [simp del]

definition downsampleTo :: "Color \<Rightarrow> ColorType \<Rightarrow> panic + Color" where
  "downsampleTo color terminalColorCount =
     (if ColorType color = ColorTypeDefault \<or> terminalColorCount = ColorTypeDefault
      then Inl PanicDownsampleDefault
      else if ColorType color \<le> terminalColorCount then Inr color
      else
        case to24Bit color of
          Inl e \<Rightarrow> Inl e
        | Inr target \<Rightarrow>
            (case (if terminalColorCount = ColorType8 then Inr 7
                   else if terminalColorCount = ColorType16 then Inr 15
                   else if terminalColorCount = ColorType256 then Inr 255
                   else Inl PanicUnhandledTerminalColorCount) of
               Inl e \<Rightarrow> Inl e
             | Inr scanRange \<Rightarrow>
                 (case downsampleTo_loop target scanRange 0 0 MaxFloat64 of
                    Inl e \<Rightarrow> Inl e
                  | Inr bestMatch \<Rightarrow>
                      if bestMatch \<le> 15 then Inr (NewColor16 (int bestMatch))
                      else Inr (NewColor256 (of_nat bestMatch)))))"

text \<open>
  \<^verbatim>\<open>ansiString\<close>. The branches for the 16-color and the 256-color type fall through to
  the next test when the value is out of range, and the function panics when no branch
  has returned.
\<close>

definition ansiString :: "Color \<Rightarrow> bool \<Rightarrow> ColorType \<Rightarrow> panic + string" where
  "ansiString color foreground terminalColorCount =
     (let fgBgMarker = (if \<not> foreground then ''4'' else ''3'') in
      if ColorType color = ColorTypeDefault
      then Inr ([CHR 0x1B, CHR ''[''] @ fgBgMarker @ ''9m'')
      else
        case downsampleTo color terminalColorCount of
          Inl e \<Rightarrow> Inl e
        | Inr color \<Rightarrow>
            let v = colorValue color in
            if ColorType color = ColorType16 \<and> v < 8
            then Inr ([CHR 0x1B, CHR ''[''] @ fgBgMarker @ decimal (unat v) @ ''m'')
            else if ColorType color = ColorType16 \<and> v \<le> 15
            then Inr ([CHR 0x1B, CHR ''[''] @ (if \<not> foreground then ''10'' else ''9'') @
                      decimal (unat (v - 8)) @ ''m'')
            else if ColorType color = ColorType256 \<and> v \<le> 255
            then Inr ([CHR 0x1B, CHR ''[''] @ fgBgMarker @ ''8;5;'' @ decimal (unat v) @ ''m'')
            else if ColorType color = ColorType24bit
            then
              let red = drop_bit 16 (v AND 0xff0000);
                  green = drop_bit 8 (v AND 0xff00);
                  blue = v AND 0xff
              in Inr ([CHR 0x1B, CHR ''[''] @ fgBgMarker @ ''8;2;'' @ decimal (unat red) @ '';'' @
                      decimal (unat green) @ '';'' @ decimal (unat blue) @ ''m'')
            else Inl PanicUnhandledColorType)"

definition ForegroundAnsiString :: "Color \<Rightarrow> ColorType \<Rightarrow> panic + string" where
  "ForegroundAnsiString color terminalColorCount = ansiString color True terminalColorCount"

definition BackgroundAnsiString :: "Color \<Rightarrow> ColorType \<Rightarrow> panic + string" where
  "BackgroundAnsiString color terminalColorCount = ansiString color False terminalColorCount"

text \<open>
  A proof device, not a function of the source: the scan of \<^verbatim>\<open>downsampleTo\<close> on the
  integers under the square root. It compares \<open>chromaDistanceSquared\<close> where the loop
  compares distances, and so can be evaluated; \<open>downsampleTo_loop_scanKeys\<close> below
  proves that the loop returns what it returns.
\<close>

function scanKeys :: "8 word \<times> 8 word \<times> 8 word \<Rightarrow> nat \<Rightarrow> nat \<Rightarrow> nat \<Rightarrow> int \<Rightarrow> nat" where
  "scanKeys target scanRange i bestMatch bestKey =
     (if i \<le> scanRange then
        let k = chromaDistanceSquared target (color256ToRGB (of_nat i)) in
        if k < bestKey then scanKeys target scanRange (i + 1) i k
        else scanKeys target scanRange (i + 1) bestMatch bestKey
      else bestMatch)"
  by pat_completeness auto
termination
  by (relation "measure (\<lambda>(target, scanRange, i, bestMatch, bestKey). scanRange + 1 - i)")
     auto

declare scanKeys.simps [simp del]

text \<open>
  The index the scan of \<^verbatim>\<open>downsampleTo\<close> ends with, in terms of the proof device: the
  pass for index 0 always replaces the initial \<^verbatim>\<open>math.MaxFloat64\<close>.
\<close>

definition bestIndex :: "8 word \<times> 8 word \<times> 8 word \<Rightarrow> nat \<Rightarrow> nat" where
  "bestIndex t n = scanKeys t n 1 0 (chromaDistanceSquared t (color256ToRGB 0))"

section \<open>Properties of the line wrapper\<close>

lemma getWrapWidth_loop_range:
  "getWrapWidth_loop line w n = Inr k \<Longrightarrow> k = w \<or> (1 \<le> k \<and> k \<le> int n)"
  by (induction n) (auto simp: Let_def split: if_splits)

lemma getWrapWidth_range:
  "getWrapWidth line w = Inr k \<Longrightarrow> 0 < w \<Longrightarrow> 1 \<le> k \<and> k \<le> w"
  using getWrapWidth_loop_range [of line w "nat w" k]
  by (auto simp: getWrapWidth_def split: if_splits)

lemma length_TrimSpaceLeft_le: "length (TrimSpaceLeft cells) \<le> length cells"
  by (simp add: TrimSpaceLeft_def length_dropWhile_le)

lemma length_TrimSpaceRight_le: "length (TrimSpaceRight cells) \<le> length cells"
  using length_dropWhile_le [of _ "rev cells"] by (simp add: TrimSpaceRight_def)

lemma getWrapWidth_loop_none:
  "n = 0 \<or> n < length line \<Longrightarrow> \<forall>i. 1 \<le> i \<and> i \<le> n \<longrightarrow> \<not> breakable (line ! i)
     \<Longrightarrow> getWrapWidth_loop line w n = Inr w"
proof (induction n)
  case 0
  show ?case by simp
next
  case (Suc n)
  from Suc.prems have nb: "\<not> breakable (line ! Suc n)" by simp
  from Suc have ih: "getWrapWidth_loop line w n = Inr w" by simp
  from Suc.prems(1) nb ih show ?case
    by (auto simp: breakable_def Let_def)
qed

lemma getWrapWidth_loop_found:
  "n < length line \<Longrightarrow> 1 \<le> i \<Longrightarrow> i \<le> n \<Longrightarrow> breakable (line ! i)
     \<Longrightarrow> \<exists>k. getWrapWidth_loop line w n = Inr (int k) \<and> i \<le> k \<and> k \<le> n \<and>
           breakable (line ! k) \<and> (\<forall>j. k < j \<and> j \<le> n \<longrightarrow> \<not> breakable (line ! j))"
proof (induction n)
  case 0
  then show ?case by simp
next
  case (Suc n)
  show ?case
  proof (cases "breakable (line ! Suc n)")
    case True
    have "getWrapWidth_loop line w (Suc n) = Inr (int (Suc n))"
      using True Suc.prems(1) by (simp add: breakable_def Let_def)
    with True Suc.prems(3) show ?thesis
      by (intro exI [of _ "Suc n"]) (auto simp del: getWrapWidth_loop.simps)
  next
    case False
    with Suc.prems have "i \<le> n" by (cases "i = Suc n") auto
    with Suc obtain k where k: "getWrapWidth_loop line w n = Inr (int k)" "i \<le> k" "k \<le> n"
      "breakable (line ! k)" "\<forall>j. k < j \<and> j \<le> n \<longrightarrow> \<not> breakable (line ! j)"
      by auto
    have "getWrapWidth_loop line w (Suc n) = Inr (int k)"
      using False Suc.prems(1) k(1) by (auto simp: breakable_def Let_def)
    moreover have "\<forall>j. k < j \<and> j \<le> Suc n \<longrightarrow> \<not> breakable (line ! j)"
      using k(5) False by (auto simp: le_Suc_eq)
    ultimately show ?thesis using k by auto
  qed
qed

lemma getWrapWidth_loop_total:
  "n = 0 \<or> n < length line \<Longrightarrow> \<exists>k. getWrapWidth_loop line w n = Inr k"
  by (induction n) (auto simp: Let_def)

lemma getWrapWidth_total:
  "w < int (length line) \<Longrightarrow> \<exists>k. getWrapWidth line w = Inr k"
proof -
  assume a: "w < int (length line)"
  then have "nat w = 0 \<or> nat w < length line" by arith
  from getWrapWidth_loop_total [OF this, of w] a show ?thesis
    by (simp add: getWrapWidth_def)
qed

lemma getWrapWidth_part000_range:
  "getWrapWidth_part000 line w = Inr k \<Longrightarrow> k = w"
  by (auto simp: getWrapWidth_part000_def split: if_splits)

lemma wrapLine_loop_step:
  assumes "w < int (length line)" "0 < w" "getWrapWidth line w = Inr k"
  shows "wrapLine_loop w wrapped line =
         wrapLine_loop w
           (wrapped @ [TrimSpaceRight (if length wrapped > 0 then TrimSpaceLeft (take (nat k) line)
                                       else take (nat k) line)])
           (TrimSpaceLeft (drop (nat k) line))"
proof -
  from getWrapWidth_range [OF assms(3,2)] have "1 \<le> k" "k \<le> w" by auto
  with assms show ?thesis
    by (subst wrapLine_loop.simps) (simp add: Let_def)
qed

lemma wrapLine_loop_bounded:
  "0 < w \<Longrightarrow> \<forall>s \<in> set wrapped. int (length s) \<le> w
     \<Longrightarrow> \<exists>subs. wrapLine_loop w wrapped line = Inr subs \<and> (\<forall>s \<in> set subs. int (length s) \<le> w)"
proof (induction w wrapped line rule: wrapLine_loop.induct)
  case (1 width wrapped line)
  show ?case
  proof (cases "width < int (length line)")
    case True
    then obtain k where k: "getWrapWidth line width = Inr k"
      using getWrapWidth_total by blast
    from getWrapWidth_range [OF k "1.prems"(1)] have kr: "1 \<le> k" "k \<le> width" by auto
    define firstPart where "firstPart = (if length wrapped > 0 then TrimSpaceLeft (take (nat k) line)
                                       else take (nat k) line)"
    have "length firstPart \<le> nat k"
      using length_TrimSpaceLeft_le [of "take (nat k) line"] by (simp add: firstPart_def)
    with length_TrimSpaceRight_le [of firstPart] kr
    have fp: "int (length (TrimSpaceRight firstPart)) \<le> width" by linarith
    have inv: "\<forall>s \<in> set (wrapped @ [TrimSpaceRight firstPart]). int (length s) \<le> width"
      using "1.prems"(2) fp by auto
    have "\<exists>subs. wrapLine_loop width (wrapped @ [TrimSpaceRight firstPart])
                    (TrimSpaceLeft (drop (nat k) line)) = Inr subs \<and>
                 (\<forall>s \<in> set subs. int (length s) \<le> width)"
      using "1.IH" [OF True k _ refl, of firstPart] kr True "1.prems"(1) inv
      by (simp add: firstPart_def)
    then show ?thesis
      using wrapLine_loop_step [OF True "1.prems"(1) k, of wrapped]
      by (simp add: firstPart_def)
  next
    case False
    define rest where "rest = (if length wrapped > 0 then TrimSpaceLeft line else line)"
    have "length rest \<le> length line"
      using length_TrimSpaceLeft_le [of line] by (simp add: rest_def)
    with length_TrimSpaceRight_le [of rest] False
    have "int (length (TrimSpaceRight rest)) \<le> width" by linarith
    with False "1.prems"(2) show ?thesis
      by (subst wrapLine_loop.simps) (auto simp: Let_def rest_def)
  qed
qed





lemma TrimSpaceRight_all_space:
  "\<forall>c \<in> set line. IsSpace (Rune c) \<Longrightarrow> TrimSpaceRight line = []"
  by (simp add: TrimSpaceRight_def dropWhile_eq_Nil_conv)

lemma wrapLine_all_space:
  assumes "line \<noteq> []" "\<forall>c \<in> set line. IsSpace (Rune c)" "0 < w"
  shows "wrapLine w line = Inr [] \<and> wrapLine_part000 w line = Inr []"
proof -
  have 1: "wrapLine_loop w [] ([] :: 'a Cell list) = Inr []"
    using assms(3) by (subst wrapLine_loop.simps) simp
  have 2: "wrapLine_part000_loop w [] ([] :: 'a Cell list) = Inr []"
    using assms(3) by (subst wrapLine_part000_loop.simps) simp
  from assms 1 2 show ?thesis
    by (simp add: wrapLine_def wrapLine_part000_def TrimSpaceRight_all_space go_div_def)
qed









lemma wrapLine_loop_prefix:
  "0 < w \<Longrightarrow> \<exists>rest. wrapLine_loop w wrapped line = Inr (wrapped @ rest)"
proof (induction w wrapped line rule: wrapLine_loop.induct)
  case (1 width wrapped line)
  show ?case
  proof (cases "width < int (length line)")
    case True
    then obtain k where k: "getWrapWidth line width = Inr k"
      using getWrapWidth_total by blast
    from getWrapWidth_range [OF k "1.prems"] have kr: "1 \<le> k" "k \<le> width" by auto
    define firstPart where "firstPart = (if length wrapped > 0 then TrimSpaceLeft (take (nat k) line)
                                       else take (nat k) line)"
    have "\<exists>rest. wrapLine_loop width (wrapped @ [TrimSpaceRight firstPart])
                    (TrimSpaceLeft (drop (nat k) line)) = Inr ((wrapped @ [TrimSpaceRight firstPart]) @ rest)"
      using "1.IH" [OF True k _ refl, of firstPart] kr True "1.prems"
      by (simp add: firstPart_def)
    then show ?thesis
      using wrapLine_loop_step [OF True "1.prems" k, of wrapped]
      by (auto simp: firstPart_def)
  next
    case False
    then show ?thesis
      by (subst wrapLine_loop.simps) (auto simp: Let_def)
  qed
qed








section \<open>The claims about the line wrapper\<close>

text \<open>
  Claim C1, as amended. For a line strictly longer than the width, \<^verbatim>\<open>getWrapWidth\<close> of
  pager.go returns a break point and does not panic. The break point is found by
  scanning the cells at the indices \<open>w, w - 1, \<dots>, 1\<close>, and not the cell at index 0, for
  whitespace that is not the non-breaking space: if that range holds such a cell, the
  break point is the index of the nearest one, that is the greatest such index; if it
  holds none, the break point is exactly \<open>w\<close>, also when the cell at index 0 is a space.
  The wrapper cuts there: for a positive width, each pass of the loop of \<^verbatim>\<open>wrapLine\<close> over
  a line longer than the width appends the trimmed cells before this break point as the
  next sub-line and goes on with the cells from the break point on, and the first
  sub-line that \<^verbatim>\<open>wrapLine\<close> returns for a line whose trimmed form is longer than the width
  is the trimmed form's cells before its break point, with trailing whitespace trimmed.
\<close>

theorem wrapLine_break_point:
  assumes "w < int (length line)"
  shows "\<exists>k. getWrapWidth line w = Inr k \<and>
           (if \<exists>i. 1 \<le> i \<and> i \<le> w \<and> breakable (line ! nat i)
            then 1 \<le> k \<and> k \<le> w \<and> breakable (line ! nat k) \<and>
                 (\<forall>j. k < j \<and> j \<le> w \<longrightarrow> \<not> breakable (line ! nat j))
            else k = w) \<and>
           (0 < w \<longrightarrow>
              (\<exists>rest.
                 wrapLine_loop w wrapped line =
                   Inr (wrapped @
                        TrimSpaceRight (if length wrapped > 0 then TrimSpaceLeft (take (nat k) line)
                                        else take (nat k) line) # rest) \<and>
                 wrapLine_loop w
                   (wrapped @ [TrimSpaceRight (if length wrapped > 0 then TrimSpaceLeft (take (nat k) line)
                                               else take (nat k) line)])
                   (TrimSpaceLeft (drop (nat k) line)) =
                   Inr (wrapped @
                        TrimSpaceRight (if length wrapped > 0 then TrimSpaceLeft (take (nat k) line)
                                        else take (nat k) line) # rest))) \<and>
           (0 < w \<and> line = TrimSpaceRight input \<longrightarrow>
              (\<exists>rest. wrapLine w input = Inr (TrimSpaceRight (take (nat k) line) # rest)))"
proof -
  have "\<exists>k. getWrapWidth line w = Inr k \<and>
           (if \<exists>i. 1 \<le> i \<and> i \<le> w \<and> breakable (line ! nat i)
            then 1 \<le> k \<and> k \<le> w \<and> breakable (line ! nat k) \<and>
                 (\<forall>j. k < j \<and> j \<le> w \<longrightarrow> \<not> breakable (line ! nat j))
            else k = w)"
  proof (cases "\<exists>i. 1 \<le> i \<and> i \<le> w \<and> breakable (line ! nat i)")
    case True
    then obtain i where i: "1 \<le> i" "i \<le> w" "breakable (line ! nat i)" by blast
    from assms i have n: "nat w < length line" "1 \<le> nat i" "nat i \<le> nat w" by arith+
    from getWrapWidth_loop_found [OF n i(3), of w]
    obtain k where k: "getWrapWidth_loop line w (nat w) = Inr (int k)" "nat i \<le> k" "k \<le> nat w"
      "breakable (line ! k)" "\<forall>j. k < j \<and> j \<le> nat w \<longrightarrow> \<not> breakable (line ! j)"
      by blast
    have "getWrapWidth line w = Inr (int k)"
      using assms k(1) by (simp add: getWrapWidth_def)
    moreover have "1 \<le> int k" "int k \<le> w" using k(2,3) n(2) i by auto
    moreover have "\<forall>j. int k < j \<and> j \<le> w \<longrightarrow> \<not> breakable (line ! nat j)"
    proof (intro allI impI)
      fix j assume "int k < j \<and> j \<le> w"
      then have "k < nat j \<and> nat j \<le> nat w" by auto
      with k(5) show "\<not> breakable (line ! nat j)" by blast
    qed
    ultimately show ?thesis using True k(4) by auto
  next
    case False
    have "\<forall>i. 1 \<le> i \<and> i \<le> nat w \<longrightarrow> \<not> breakable (line ! i)"
    proof (intro allI impI)
      fix i assume a: "1 \<le> i \<and> i \<le> nat w"
      then have "1 \<le> int i \<and> int i \<le> w" by auto
      with False have "\<not> breakable (line ! nat (int i))" by blast
      then show "\<not> breakable (line ! i)" by simp
    qed
    moreover from assms have "nat w = 0 \<or> nat w < length line" by arith
    ultimately have "getWrapWidth_loop line w (nat w) = Inr w"
      by (rule getWrapWidth_loop_none [rotated])
    with assms have "getWrapWidth line w = Inr w" by (simp add: getWrapWidth_def)
    with False show ?thesis by auto
  qed
  then obtain k where k: "getWrapWidth line w = Inr k"
    "if \<exists>i. 1 \<le> i \<and> i \<le> w \<and> breakable (line ! nat i)
     then 1 \<le> k \<and> k \<le> w \<and> breakable (line ! nat k) \<and>
          (\<forall>j. k < j \<and> j \<le> w \<longrightarrow> \<not> breakable (line ! nat j))
     else k = w"
    by blast
  define seg where "seg = TrimSpaceRight (if length wrapped > 0 then TrimSpaceLeft (take (nat k) line)
                                          else take (nat k) line)"
  have pass: "\<exists>rest. wrapLine_loop w wrapped line = Inr (wrapped @ seg # rest) \<and>
                 wrapLine_loop w (wrapped @ [seg]) (TrimSpaceLeft (drop (nat k) line)) =
                   Inr (wrapped @ seg # rest)"
    if pos: "0 < w"
  proof -
    have step: "wrapLine_loop w wrapped line =
                wrapLine_loop w (wrapped @ [seg]) (TrimSpaceLeft (drop (nat k) line))"
      unfolding seg_def by (rule wrapLine_loop_step [OF assms pos k(1)])
    obtain rest where "wrapLine_loop w (wrapped @ [seg]) (TrimSpaceLeft (drop (nat k) line)) =
                         Inr ((wrapped @ [seg]) @ rest)"
      using wrapLine_loop_prefix [OF pos] by blast
    with step show ?thesis by (intro exI [of _ rest]) simp
  qed
  have whole: "\<exists>rest. wrapLine w input = Inr (TrimSpaceRight (take (nat k) line) # rest)"
    if pos: "0 < w" and tr: "line = TrimSpaceRight input"
  proof -
    from assms pos tr have ne: "length input \<noteq> 0"
      by (auto simp: TrimSpaceRight_def)
    have step: "wrapLine_loop w [] line =
                wrapLine_loop w ([] @ [TrimSpaceRight (take (nat k) line)])
                  (TrimSpaceLeft (drop (nat k) line))"
      using wrapLine_loop_step [OF assms pos k(1), of "[]"] by simp
    obtain rest where "wrapLine_loop w ([] @ [TrimSpaceRight (take (nat k) line)])
                         (TrimSpaceLeft (drop (nat k) line)) =
                       Inr (([] @ [TrimSpaceRight (take (nat k) line)]) @ rest)"
      using wrapLine_loop_prefix [OF pos] by blast
    with step have l: "wrapLine_loop w [] line = Inr (TrimSpaceRight (take (nat k) line) # rest)"
      by simp
    have "0 \<le> go_div (int (length line)) w"
      using pos by (simp add: go_div_def pos_imp_zdiv_nonneg_iff sgn_if)
    with ne pos tr l have "wrapLine w input = Inr (TrimSpaceRight (take (nat k) line) # rest)"
      by (simp add: wrapLine_def Let_def)
    then show ?thesis by blast
  qed
  from k pass whole show ?thesis
    unfolding seg_def by blast
qed

theorem wrapLine_break_point_witness:
  "(4::int) < int (length [\<lparr>Rune = 0x61, Style = ()\<rparr>, \<lparr>Rune = 0x62, Style = ()\<rparr>,
       \<lparr>Rune = 0x20, Style = ()\<rparr>, \<lparr>Rune = 0x63, Style = ()\<rparr>, \<lparr>Rune = 0x64, Style = ()\<rparr>,
       \<lparr>Rune = 0x65, Style = ()\<rparr>]) \<and>
   getWrapWidth [\<lparr>Rune = 0x61, Style = ()\<rparr>, \<lparr>Rune = 0x62, Style = ()\<rparr>,
       \<lparr>Rune = 0x20, Style = ()\<rparr>, \<lparr>Rune = 0x63, Style = ()\<rparr>, \<lparr>Rune = 0x64, Style = ()\<rparr>,
       \<lparr>Rune = 0x65, Style = ()\<rparr>] 4 = Inr 2 \<and>
   (2::int) < int (length [\<lparr>Rune = 0x20, Style = ()\<rparr>, \<lparr>Rune = 0x61, Style = ()\<rparr>,
       \<lparr>Rune = 0xA0, Style = ()\<rparr>, \<lparr>Rune = 0x62, Style = ()\<rparr>]) \<and>
   getWrapWidth [\<lparr>Rune = 0x20, Style = ()\<rparr>, \<lparr>Rune = 0x61, Style = ()\<rparr>,
       \<lparr>Rune = 0xA0, Style = ()\<rparr>, \<lparr>Rune = 0x62, Style = ()\<rparr>] 2 = Inr 2 \<and>
   (\<exists>rest. wrapLine 4 [\<lparr>Rune = 0x61, Style = ()\<rparr>, \<lparr>Rune = 0x62, Style = ()\<rparr>,
       \<lparr>Rune = 0x20, Style = ()\<rparr>, \<lparr>Rune = 0x63, Style = ()\<rparr>, \<lparr>Rune = 0x64, Style = ()\<rparr>,
       \<lparr>Rune = 0x65, Style = ()\<rparr>] =
     Inr ([\<lparr>Rune = 0x61, Style = ()\<rparr>, \<lparr>Rune = 0x62, Style = ()\<rparr>] # rest))"
proof -
  define line :: "unit Cell list" where
    "line = [\<lparr>Rune = 0x61, Style = ()\<rparr>, \<lparr>Rune = 0x62, Style = ()\<rparr>,
       \<lparr>Rune = 0x20, Style = ()\<rparr>, \<lparr>Rune = 0x63, Style = ()\<rparr>, \<lparr>Rune = 0x64, Style = ()\<rparr>,
       \<lparr>Rune = 0x65, Style = ()\<rparr>]"
  have h: "(4::int) < int (length line)" by (simp add: line_def)
  have b: "breakable (line ! nat i) \<longleftrightarrow> i = 2" if "1 \<le> i" "i \<le> 4" for i :: int
  proof -
    from that have "i = 1 \<or> i = 2 \<or> i = 3 \<or> i = 4" by arith
    then show ?thesis
      by (auto simp: line_def breakable_def IsSpace_def NO_BREAK_SPACE_def)
  qed
  from wrapLine_break_point [OF h, of "[]" line] obtain k where k: "getWrapWidth line 4 = Inr k"
    "if \<exists>i. 1 \<le> i \<and> i \<le> 4 \<and> breakable (line ! nat i)
     then 1 \<le> k \<and> k \<le> 4 \<and> breakable (line ! nat k) \<and>
          (\<forall>j. k < j \<and> j \<le> 4 \<longrightarrow> \<not> breakable (line ! nat j))
     else k = 4"
    "0 < (4::int) \<and> line = TrimSpaceRight line \<longrightarrow>
       (\<exists>rest. wrapLine 4 line = Inr (TrimSpaceRight (take (nat k) line) # rest))"
    by blast
  have "\<exists>i. 1 \<le> i \<and> i \<le> 4 \<and> breakable (line ! nat i)"
    using b [of 2] by (intro exI [of _ 2]) simp
  with k(2) have "1 \<le> k" "k \<le> 4" "breakable (line ! nat k)" by auto
  with b [of k] have "k = 2" by simp
  with k(1) have first: "getWrapWidth line 4 = Inr 2" by simp
  have tr: "line = TrimSpaceRight line"
    by (simp add: line_def TrimSpaceRight_def IsSpace_def)
  have "TrimSpaceRight (take (nat 2) line) = [\<lparr>Rune = 0x61, Style = ()\<rparr>, \<lparr>Rune = 0x62, Style = ()\<rparr>]"
    by (simp add: line_def TrimSpaceRight_def IsSpace_def)
  with k(3) tr \<open>k = 2\<close>
  have whole: "\<exists>rest. wrapLine 4 line = Inr ([\<lparr>Rune = 0x61, Style = ()\<rparr>, \<lparr>Rune = 0x62, Style = ()\<rparr>] # rest)"
    by simp
  define hard :: "unit Cell list" where
    "hard = [\<lparr>Rune = 0x20, Style = ()\<rparr>, \<lparr>Rune = 0x61, Style = ()\<rparr>,
       \<lparr>Rune = 0xA0, Style = ()\<rparr>, \<lparr>Rune = 0x62, Style = ()\<rparr>]"
  have h': "(2::int) < int (length hard)" by (simp add: hard_def)
  have n: "\<not> breakable (hard ! nat i)" if "1 \<le> i" "i \<le> 2" for i :: int
  proof -
    from that have "i = 1 \<or> i = 2" by arith
    then show ?thesis
      by (auto simp: hard_def breakable_def IsSpace_def NO_BREAK_SPACE_def)
  qed
  from wrapLine_break_point [OF h', of "[]"] obtain k' where k': "getWrapWidth hard 2 = Inr k'"
    "if \<exists>i. 1 \<le> i \<and> i \<le> 2 \<and> breakable (hard ! nat i)
     then 1 \<le> k' \<and> k' \<le> 2 \<and> breakable (hard ! nat k') \<and>
          (\<forall>j. k' < j \<and> j \<le> 2 \<longrightarrow> \<not> breakable (hard ! nat j))
     else k' = 2"
    by blast
  have "\<not> (\<exists>i. 1 \<le> i \<and> i \<le> 2 \<and> breakable (hard ! nat i))"
    using n by blast
  with k'(2) have "k' = 2" by simp
  with k'(1) have second: "getWrapWidth hard 2 = Inr 2" by simp
  from h first h' second whole show ?thesis by (simp add: line_def hard_def)
qed

theorem wrapLine_break_point_counterexample:
  "breakable ([\<lparr>Rune = 0x20, Style = ()\<rparr>, \<lparr>Rune = 0x61, Style = ()\<rparr>, \<lparr>Rune = 0x62, Style = ()\<rparr>,
       \<lparr>Rune = 0x63, Style = ()\<rparr>, \<lparr>Rune = 0x64, Style = ()\<rparr>, \<lparr>Rune = 0x65, Style = ()\<rparr>,
       \<lparr>Rune = 0x66, Style = ()\<rparr>] ! 0) \<and>
   getWrapWidth [\<lparr>Rune = 0x20, Style = ()\<rparr>, \<lparr>Rune = 0x61, Style = ()\<rparr>, \<lparr>Rune = 0x62, Style = ()\<rparr>,
       \<lparr>Rune = 0x63, Style = ()\<rparr>, \<lparr>Rune = 0x64, Style = ()\<rparr>, \<lparr>Rune = 0x65, Style = ()\<rparr>,
       \<lparr>Rune = 0x66, Style = ()\<rparr>] 3 = Inr 3 \<and>
   wrapLine 3 [\<lparr>Rune = 0x20, Style = ()\<rparr>, \<lparr>Rune = 0x61, Style = ()\<rparr>, \<lparr>Rune = 0x62, Style = ()\<rparr>,
       \<lparr>Rune = 0x63, Style = ()\<rparr>, \<lparr>Rune = 0x64, Style = ()\<rparr>, \<lparr>Rune = 0x65, Style = ()\<rparr>,
       \<lparr>Rune = 0x66, Style = ()\<rparr>] =
     Inr [[\<lparr>Rune = 0x20, Style = ()\<rparr>, \<lparr>Rune = 0x61, Style = ()\<rparr>, \<lparr>Rune = 0x62, Style = ()\<rparr>],
          [\<lparr>Rune = 0x63, Style = ()\<rparr>, \<lparr>Rune = 0x64, Style = ()\<rparr>, \<lparr>Rune = 0x65, Style = ()\<rparr>],
          [\<lparr>Rune = 0x66, Style = ()\<rparr>]]"
  by code_simp

text \<open>
  Claim C7. For every positive width and every line of cells, \<^verbatim>\<open>wrapLine\<close> returns (it
  neither panics nor runs forever), and every sub-line it returns has length at most
  the width.
\<close>

theorem wrapLine_bounded:
  assumes "0 < w"
  shows "\<exists>subs. wrapLine w line = Inr subs \<and> (\<forall>s \<in> set subs. int (length s) \<le> w)"
proof (cases "length line = 0")
  case True
  with assms show ?thesis by (simp add: wrapLine_def)
next
  case False
  have "0 \<le> go_div (int (length (TrimSpaceRight line))) w"
    using assms by (simp add: go_div_def pos_imp_zdiv_nonneg_iff sgn_if)
  with False assms wrapLine_loop_bounded [of w "[]" "TrimSpaceRight line"] show ?thesis
    by (simp add: wrapLine_def Let_def)
qed

theorem wrapLine_bounded_witness:
  "(0::int) < 4 \<and>
   (\<exists>subs. wrapLine 4 [\<lparr>Rune = 0x61, Style = ()\<rparr>, \<lparr>Rune = 0x62, Style = ()\<rparr>,
       \<lparr>Rune = 0x20, Style = ()\<rparr>, \<lparr>Rune = 0x63, Style = ()\<rparr>, \<lparr>Rune = 0x64, Style = ()\<rparr>,
       \<lparr>Rune = 0x65, Style = ()\<rparr>] = Inr subs \<and> (\<forall>s \<in> set subs. int (length s) \<le> 4))"
proof -
  have h: "(0::int) < 4" by simp
  from h wrapLine_bounded [OF h] show ?thesis by (rule conjI)
qed

text \<open>
  Claim C4. \<^verbatim>\<open>wrapLine\<close> tests \<^verbatim>\<open>len(line) == 0\<close> before it trims the line. The empty line
  gives one empty sub-line, but a line of one space cell at width 80 gives no sub-line
  at all, in both implementations: the trimmed line is empty, the loop is not entered
  and nothing is appended. By \<open>wrapLine_all_space\<close> the same holds for every non-empty
  line of whitespace at every positive width.
\<close>

theorem wrapLine_whitespace_only:
  "wrapLine 80 [\<lparr>Rune = 0x20, Style = ()\<rparr>] = Inr [] \<and>
   wrapLine_part000 80 [\<lparr>Rune = 0x20, Style = ()\<rparr>] = Inr [] \<and>
   wrapLine 80 ([] :: unit Cell list) = Inr [[]]"
  by code_simp




section \<open>Properties of the color encoding\<close>

lemma mask24: "(0xffffff :: 32 word) = mask 24"
  by (simp add: mask_eq_exp_minus_1)

lemma mask8: "(0xff :: 32 word) = mask 8"
  by (simp add: mask_eq_exp_minus_1)

lemma ColorType_newColor:
  "drop_bit 24 v = 0 \<Longrightarrow> ColorType (newColor ct v) = ct"
  unfolding ColorType_def newColor_def
  apply (simp add: drop_bit_or)
  apply (rule bit_word_eqI)
  apply (auto simp: bit_simps dest: bit_imp_le_length)
  done

lemma colorValue_newColor:
  "colorValue (newColor ct v) = v AND 0xffffff"
  unfolding colorValue_def newColor_def mask24
  apply (rule bit_word_eqI)
  apply (auto simp: bit_simps dest: bit_imp_le_length)
  done

lemma value24: "push_bit 16 (ucast (r::8 word)) + push_bit 8 (ucast (g::8 word)) + push_bit 0 (ucast (b :: 8 word))
   = ((push_bit 16 (ucast r) OR push_bit 8 (ucast g)) OR ucast b :: 32 word)"
proof -
  have 1: "push_bit 16 (ucast r) + push_bit 8 (ucast g) = (push_bit 16 (ucast r) OR push_bit 8 (ucast g) :: 32 word)"
    by (rule disjunctive_add) (auto simp: bit_simps dest: bit_imp_le_length)
  have 2: "(push_bit 16 (ucast r) OR push_bit 8 (ucast g)) + ucast b = ((push_bit 16 (ucast r) OR push_bit 8 (ucast g)) OR ucast b :: 32 word)"
    by (rule disjunctive_add) (auto simp: bit_simps dest: bit_imp_le_length)
  show ?thesis by (simp add: 1 2)
qed

lemma ColorType_NewColor24Bit: "ColorType (NewColor24Bit r g b) = ColorType24bit"
  unfolding NewColor24Bit_def value24
  apply (rule ColorType_newColor)
  apply (rule bit_word_eqI)
  apply (auto simp: bit_simps dest: bit_imp_le_length)
  done

lemma channels_NewColor24Bit: "channels (NewColor24Bit r g b) = (r, g, b)"
  unfolding channels_def NewColor24Bit_def value24 colorValue_newColor mask24 mask8
  apply (simp only: prod.inject)
  apply (intro conjI)
  apply (rule bit_word_eqI, auto simp: bit_simps dest: bit_imp_le_length)+
  done

lemma ColorType_NewColor256: "ColorType (NewColor256 v) = ColorType256"
  unfolding NewColor256_def
  apply (rule ColorType_newColor)
  apply (rule bit_word_eqI)
  apply (auto simp: bit_simps dest: bit_imp_le_length)
  done

lemma colorValue_NewColor256: "colorValue (NewColor256 v) = ucast v"
  unfolding NewColor256_def colorValue_newColor mask24
  apply (rule bit_word_eqI)
  apply (auto simp: bit_simps dest: bit_imp_le_length)
  done

lemma ucast_le_255: "(ucast (v :: 8 word) :: 32 word) \<le> 255"
proof -
  have "unat (ucast v :: 32 word) = take_bit 32 (unat v)" by (simp add: unsigned_ucast_eq)
  also have "\<dots> \<le> unat v" by (rule take_bit_nat_less_eq_self)
  finally have "unat (ucast v :: 32 word) \<le> unat v" .
  moreover have "unat v < 256" using unsigned_less [of v, where 'a = nat] by simp
  ultimately show ?thesis by (simp add: word_le_nat_alt)
qed

lemma colorValue_NewColor16: "0 \<le> n \<Longrightarrow> n \<le> 15 \<Longrightarrow> colorValue (NewColor16 n) = word_of_int n"
proof -
  assume "0 \<le> n" "n \<le> 15"
  then have "n \<in> {0,1,2,3,4,5,6,7,8,9,10,11,12,13,14,15}" by simp arith
  then show ?thesis
    by (auto simp: colorValue_def NewColor16_def newColor_def ColorType16_def)
qed

lemma ColorType_NewColor16: "0 \<le> n \<Longrightarrow> n \<le> 15 \<Longrightarrow> ColorType (NewColor16 n) = ColorType16"
proof -
  assume "0 \<le> n" "n \<le> 15"
  then have "n \<in> {0,1,2,3,4,5,6,7,8,9,10,11,12,13,14,15}" by simp arith
  then show ?thesis
    by (auto simp: ColorType_def NewColor16_def newColor_def ColorType16_def)
qed

lemma channels_ColorDefault: "channels ColorDefault = (0, 0, 0)"
  by (simp add: channels_def colorValue_def ColorDefault_def newColor_def ColorTypeDefault_def)

section \<open>Properties of the distance and the scan\<close>

lemma uint8_bounds: "0 \<le> uint (x :: 8 word) \<and> uint x \<le> 255"
  using uint_lt2p [of x] by simp

lemma square_le_65025: "- 255 \<le> (r::int) \<Longrightarrow> r \<le> 255 \<Longrightarrow> r * r \<le> 65025"
proof -
  assume "- 255 \<le> r" "r \<le> 255"
  then have "\<bar>r\<bar> \<le> 255" by simp
  then have "\<bar>r\<bar> * \<bar>r\<bar> \<le> 255 * 255" by (intro mult_mono) simp_all
  then show ?thesis by (simp add: abs_mult_self_eq)
qed

lemma weighted_square_bounds:
  assumes "0 \<le> (w::int)" "w \<le> 767" "- 255 \<le> r" "r \<le> 255"
  shows "0 \<le> drop_bit 8 (w * r * r) \<and> drop_bit 8 (w * r * r) \<le> 767 * 65025"
proof -
  define x where "x = w * (r * r)"
  have rr: "0 \<le> r * r" "r * r \<le> 65025"
    using square_le_65025 [OF assms(3,4)] by simp_all
  have "x \<le> 767 * 65025"
    unfolding x_def using assms(1,2) rr by (intro mult_mono) simp_all
  moreover have "0 \<le> x"
    unfolding x_def using assms(1) rr(1) by (rule mult_nonneg_nonneg)
  moreover from this have "0 \<le> x div 256 \<and> x div 256 \<le> x"
    using zdiv_mono2 [of x 1 256] by (simp add: pos_imp_zdiv_nonneg_iff)
  ultimately have "0 \<le> x div 256 \<and> x div 256 \<le> 767 * 65025"
    by linarith
  moreover have "drop_bit 8 (w * r * r) = x div 256"
    by (simp add: drop_bit_eq_div x_def mult.assoc)
  ultimately show ?thesis by (simp only:)
qed

lemma chromaDistanceSquared_bounds:
  "0 \<le> chromaDistanceSquared c e2 \<and> chromaDistanceSquared c e2 \<le> 400000000"
proof -
  obtain cr cg cb where c: "c = (cr, cg, cb)" by (cases c)
  obtain er eg eb where e: "e2 = (er, eg, eb)" by (cases e2)
  define rmean where "rmean = (uint cr + uint er) div 2"
  have rm: "0 \<le> rmean" "rmean \<le> 255"
    using uint8_bounds [of cr] uint8_bounds [of er] by (simp_all add: rmean_def)
  have r: "- 255 \<le> uint cr - uint er" "uint cr - uint er \<le> 255"
    using uint8_bounds [of cr] uint8_bounds [of er] by linarith+
  have g: "- 255 \<le> uint cg - uint eg" "uint cg - uint eg \<le> 255"
    using uint8_bounds [of cg] uint8_bounds [of eg] by linarith+
  have b: "- 255 \<le> uint cb - uint eb" "uint cb - uint eb \<le> 255"
    using uint8_bounds [of cb] uint8_bounds [of eb] by linarith+
  define A where "A = drop_bit 8 ((512 + rmean) * (uint cr - uint er) * (uint cr - uint er))"
  define B where "B = drop_bit 8 ((767 - rmean) * (uint cb - uint eb) * (uint cb - uint eb))"
  define G where "G = (uint cg - uint eg) * (uint cg - uint eg)"
  have 1: "0 \<le> A \<and> A \<le> 767 * 65025"
    unfolding A_def using rm r by (intro weighted_square_bounds) simp_all
  have 2: "0 \<le> B \<and> B \<le> 767 * 65025"
    unfolding B_def using rm b by (intro weighted_square_bounds) simp_all
  have 3: "0 \<le> G" "G \<le> 65025"
    unfolding G_def using square_le_65025 [OF g] by simp_all
  have "chromaDistanceSquared c e2 = A + 4 * G + B"
    by (simp add: chromaDistanceSquared_def c e Let_def rmean_def A_def B_def G_def mult.assoc)
  with 1 2 3 show ?thesis by simp
qed

lemma maxDistance_pos: "0 < maxDistance"
  by (simp add: maxDistance_def)

lemma distance_less_iff:
  "sqrt (real_of_int a) / maxDistance < sqrt (real_of_int b) / maxDistance \<longleftrightarrow> a < b"
  using maxDistance_pos by (simp add: divide_less_cancel)

lemma distance_less_MaxFloat64:
  "sqrt (real_of_int (chromaDistanceSquared c e2)) / maxDistance < MaxFloat64"
proof -
  let ?k = "chromaDistanceSquared c e2"
  have k: "0 \<le> ?k" "?k \<le> 400000000" using chromaDistanceSquared_bounds [of c e2] by simp_all
  have "real_of_int ?k \<le> 400000000" using k(2) by linarith
  then have "sqrt (real_of_int ?k) \<le> sqrt (400000000)"
    by (rule real_sqrt_le_mono)
  also have "sqrt (400000000::real) = 20000"
    by (rule real_sqrt_unique) simp_all
  finally have s: "sqrt (real_of_int ?k) \<le> 20000" .
  have "sqrt (real_of_int ?k) / maxDistance \<le> 20000 / maxDistance"
    using s maxDistance_pos by (simp add: divide_right_mono)
  also have "\<dots> < MaxFloat64"
    by (simp add: maxDistance_def MaxFloat64_def)
  finally show ?thesis .
qed

lemma Distance_24bit:
  "ColorType target = ColorType24bit \<Longrightarrow>
   Distance target (NewColor24Bit r g b) =
     Inr (sqrt (real_of_int (chromaDistanceSquared (channels target) (r, g, b))) / maxDistance)"
  by (simp add: Distance_def channels_NewColor24Bit chromaDistance_def)

lemma downsampleTo_loop_scanKeys:
  "ColorType target = ColorType24bit \<Longrightarrow>
   downsampleTo_loop target n i bm (sqrt (real_of_int bk) / maxDistance) =
     Inr (scanKeys (channels target) n i bm bk)"
proof (induction "channels target" n i bm bk rule: scanKeys.induct)
  case (1 n i bm bk)
  show ?case
  proof (cases "i \<le> n")
    case False
    then show ?thesis
      by (subst downsampleTo_loop.simps, subst scanKeys.simps) simp
  next
    case True
    obtain r g b where p: "color256ToRGB (of_nat i) = (r, g, b)"
      by (cases "color256ToRGB (of_nat i :: 8 word)")
    define k where "k = chromaDistanceSquared (channels target) (color256ToRGB (of_nat i))"
    have d: "Distance target (NewColor24Bit r g b) = Inr (sqrt (real_of_int k) / maxDistance)"
      using Distance_24bit [OF "1.prems", of r g b] by (simp add: k_def p)
    show ?thesis
    proof (cases "k < bk")
      case True
      have "downsampleTo_loop target n i bm (sqrt (real_of_int bk) / maxDistance) =
            downsampleTo_loop target n (i + 1) i (sqrt (real_of_int k) / maxDistance)"
        using \<open>i \<le> n\<close> True
        by (subst downsampleTo_loop.simps) (simp add: p d distance_less_iff)
      also have "\<dots> = Inr (scanKeys (channels target) n (i + 1) i k)"
        using "1.hyps"(1) [OF \<open>i \<le> n\<close> k_def True "1.prems"]
        by (simp add: k_def)
      also have "scanKeys (channels target) n (i + 1) i k = scanKeys (channels target) n i bm bk"
        using \<open>i \<le> n\<close> True by (subst (2) scanKeys.simps) (simp add: k_def Let_def)
      finally show ?thesis .
    next
      case False
      have "downsampleTo_loop target n i bm (sqrt (real_of_int bk) / maxDistance) =
            downsampleTo_loop target n (i + 1) bm (sqrt (real_of_int bk) / maxDistance)"
        using \<open>i \<le> n\<close> False
        by (subst downsampleTo_loop.simps) (simp add: p d distance_less_iff)
      also have "\<dots> = Inr (scanKeys (channels target) n (i + 1) bm bk)"
        using "1.hyps"(2) [OF \<open>i \<le> n\<close> k_def False "1.prems"]
        by (simp add: k_def)
      also have "scanKeys (channels target) n (i + 1) bm bk = scanKeys (channels target) n i bm bk"
        using \<open>i \<le> n\<close> False by (subst (2) scanKeys.simps) (simp add: k_def Let_def)
      finally show ?thesis .
    qed
  qed
qed

lemma downsampleTo_loop_start:
  assumes "ColorType target = ColorType24bit"
  shows "downsampleTo_loop target n 0 0 MaxFloat64 =
           Inr (scanKeys (channels target) n 1 0
                  (chromaDistanceSquared (channels target) (color256ToRGB 0)))"
proof -
  obtain r g b where p: "color256ToRGB 0 = (r, g, b)"
    by (cases "color256ToRGB 0")
  define k where "k = chromaDistanceSquared (channels target) (color256ToRGB 0)"
  have d: "Distance target (NewColor24Bit r g b) = Inr (sqrt (real_of_int k) / maxDistance)"
    using Distance_24bit [OF assms, of r g b] by (simp add: k_def p)
  have "sqrt (real_of_int k) / maxDistance < MaxFloat64"
    unfolding k_def by (rule distance_less_MaxFloat64)
  then have "downsampleTo_loop target n 0 0 MaxFloat64 =
             downsampleTo_loop target n 1 0 (sqrt (real_of_int k) / maxDistance)"
    by (subst downsampleTo_loop.simps) (simp add: p d)
  also have "\<dots> = Inr (scanKeys (channels target) n 1 0 k)"
    using assms by (rule downsampleTo_loop_scanKeys)
  finally show ?thesis by (simp add: k_def)
qed

lemma scanKeys_range:
  "scanKeys t n i bm bk = bm \<or> (i \<le> scanKeys t n i bm bk \<and> scanKeys t n i bm bk \<le> n)"
proof (induction t n i bm bk rule: scanKeys.induct)
  case (1 t n i bm bk)
  show ?case
  proof (cases "i \<le> n")
    case False
    then show ?thesis by (subst scanKeys.simps, subst (2) scanKeys.simps, subst (3) scanKeys.simps) simp
  next
    case True
    define k where "k = chromaDistanceSquared t (color256ToRGB (of_nat i))"
    show ?thesis
    proof (cases "k < bk")
      case kb: True
      have e: "scanKeys t n i bm bk = scanKeys t n (i + 1) i k"
        using True kb by (subst scanKeys.simps) (simp add: k_def Let_def)
      from "1.IH"(1) [OF True k_def kb] True show ?thesis
        unfolding e by auto
    next
      case kb: False
      have e: "scanKeys t n i bm bk = scanKeys t n (i + 1) bm bk"
        using True kb by (subst scanKeys.simps) (simp add: k_def Let_def)
      from "1.IH"(2) [OF True k_def kb] show ?thesis
        unfolding e by auto
    qed
  qed
qed

lemma scanKeys_restrict:
  "n \<le> n' \<Longrightarrow> scanKeys t n' i bm bk \<le> n \<Longrightarrow> bm \<le> n
     \<Longrightarrow> scanKeys t n i bm bk = scanKeys t n' i bm bk"
proof (induction t n' i bm bk rule: scanKeys.induct)
  case (1 t n' i bm bk)
  define k where "k = chromaDistanceSquared t (color256ToRGB (of_nat i))"
  show ?case
  proof (cases "i \<le> n")
    case True
    with "1.prems"(1) have i': "i \<le> n'" by simp
    show ?thesis
    proof (cases "k < bk")
      case kb: True
      have e': "scanKeys t n' i bm bk = scanKeys t n' (i + 1) i k"
        using i' kb by (subst scanKeys.simps) (simp add: k_def Let_def)
      have e: "scanKeys t n i bm bk = scanKeys t n (i + 1) i k"
        using True kb by (subst scanKeys.simps) (simp add: k_def Let_def)
      from "1.IH"(1) [OF i' k_def kb "1.prems"(1)] "1.prems"(2) True show ?thesis
        unfolding e e' by simp
    next
      case kb: False
      have e': "scanKeys t n' i bm bk = scanKeys t n' (i + 1) bm bk"
        using i' kb by (subst scanKeys.simps) (simp add: k_def Let_def)
      have e: "scanKeys t n i bm bk = scanKeys t n (i + 1) bm bk"
        using True kb by (subst scanKeys.simps) (simp add: k_def Let_def)
      from "1.IH"(2) [OF i' k_def kb "1.prems"(1)] "1.prems"(2,3) show ?thesis
        unfolding e e' by simp
    qed
  next
    case False
    then have e: "scanKeys t n i bm bk = bm"
      by (subst scanKeys.simps) simp
    from scanKeys_range [of t n' i bm bk] "1.prems"(2) False
    have "scanKeys t n' i bm bk = bm" by auto
    with e show ?thesis by simp
  qed
qed

lemma ColorType_consts [simp]:
  "ColorType24bit \<noteq> ColorTypeDefault" "ColorType256 \<noteq> ColorTypeDefault" "ColorType16 \<noteq> ColorTypeDefault"
  "ColorType8 \<noteq> ColorTypeDefault"
  "\<not> ColorType24bit \<le> ColorType256" "\<not> ColorType24bit \<le> ColorType16" "\<not> ColorType256 \<le> ColorType16"
  "ColorType256 \<noteq> ColorType16" "ColorType256 \<noteq> ColorType8" "ColorType16 \<noteq> ColorType8"
  "ColorType256 \<noteq> ColorType24bit" "ColorType16 \<noteq> ColorType24bit" "ColorType16 \<noteq> ColorType256"
  "ColorType16 \<le> ColorType16" 
  by (simp_all add: ColorTypeDefault_def ColorType8_def ColorType16_def ColorType256_def ColorType24bit_def)

lemma bestIndex_le: "bestIndex t n \<le> n"
  using scanKeys_range [of t n 1 0 "chromaDistanceSquared t (color256ToRGB 0)"]
  by (auto simp: bestIndex_def)

lemma downsampleTo_24bit_256:
  assumes "ColorType c = ColorType24bit"
  shows "downsampleTo c ColorType256 =
           Inr (if bestIndex (channels c) 255 \<le> 15 then NewColor16 (int (bestIndex (channels c) 255))
                else NewColor256 (of_nat (bestIndex (channels c) 255)))"
  using assms downsampleTo_loop_start [OF assms, of 255]
  by (simp add: downsampleTo_def to24Bit_def bestIndex_def)

lemma downsampleTo_24bit_16:
  assumes "ColorType c = ColorType24bit"
  shows "downsampleTo c ColorType16 = Inr (NewColor16 (int (bestIndex (channels c) 15)))"
  using assms downsampleTo_loop_start [OF assms, of 15] bestIndex_le [of "channels c" 15]
  by (simp add: downsampleTo_def to24Bit_def bestIndex_def)

lemma downsampleTo_256_16:
  assumes "ColorType c = ColorType256"
  shows "downsampleTo c ColorType16 =
           Inr (NewColor16 (int (bestIndex (color256ToRGB (ucast (colorValue c))) 15)))"
proof -
  obtain r g b where p: "color256ToRGB (ucast (colorValue c)) = (r, g, b)"
    by (cases "color256ToRGB (ucast (colorValue c))")
  have t: "to24Bit c = Inr (NewColor24Bit r g b)"
    using assms by (simp add: to24Bit_def p)
  have "downsampleTo_loop (NewColor24Bit r g b) 15 0 0 MaxFloat64 =
          Inr (bestIndex (r, g, b) 15)"
    using downsampleTo_loop_start [OF ColorType_NewColor24Bit, of r g b 15]
    by (simp add: channels_NewColor24Bit bestIndex_def)
  with assms t bestIndex_le [of "(r, g, b)" 15] show ?thesis
    by (simp add: downsampleTo_def p)
qed

lemma scanKeys_zero: "scanKeys t n i bm 0 = bm"
proof (induction t n i bm "0::int" rule: scanKeys.induct)
  case (1 t n i bm)
  have "\<not> chromaDistanceSquared t (color256ToRGB (of_nat i)) < 0"
    using chromaDistanceSquared_bounds [of t "color256ToRGB (of_nat i)"] by simp
  with "1.hyps"(2) show ?case
    by (subst scanKeys.simps) (simp add: Let_def)
qed

lemma bestIndex_black: "bestIndex (0, 0, 0) n = 0"
proof -
  have "chromaDistanceSquared (0, 0, 0) (color256ToRGB 0) = 0"
    by (simp add: chromaDistanceSquared_def color256ToRGB_def standardColors_def)
  then show ?thesis by (simp add: bestIndex_def scanKeys_zero)
qed

lemma downsampleTo_black_256:
  "downsampleTo (NewColor24Bit 0 0 0) ColorType256 = Inr (NewColor16 0)"
  using downsampleTo_24bit_256 [OF ColorType_NewColor24Bit, of 0 0 0]
  by (simp add: channels_NewColor24Bit bestIndex_black)

lemma bestIndex_example_256: "bestIndex (0, 55, 175) 255 = 25"
  unfolding bestIndex_def by code_simp

lemma bestIndex_example_16: "bestIndex (0, 55, 175) 15 = 4"
  unfolding bestIndex_def by code_simp

lemma bestIndex_example_step: "bestIndex (color256ToRGB 25) 15 = 6"
  unfolding bestIndex_def by code_simp

section \<open>The claims about colors\<close>

text \<open>
  Claim C5, as amended. The constructors are total functions. \<^verbatim>\<open>NewColor256\<close> and
  \<^verbatim>\<open>NewColor24Bit\<close> take \<^verbatim>\<open>uint8\<close> arguments, and for all of them the color carries
  the tag of its constructor with a value in range: the 256-color value is the argument,
  at most 255, and the three channels read back are the arguments. \<^verbatim>\<open>NewColor16\<close> takes
  an \<^verbatim>\<open>int\<close> and stores its low 32 bits unchecked: the color carries the 16-color tag
  and a value in 0 to 15 for every argument from 0 to 15, the range its parameter name
  \<^verbatim>\<open>colorNumber0to15\<close> asks of the caller. Outside that range it does not: the
  argument 16 gives the value 16, and the argument \<open>2\<^sup>2\<^sup>4\<close> gives the 256-color tag.
\<close>

theorem color_constructors_valid:
  "(0 \<le> n \<and> n \<le> 15 \<longrightarrow>
      ColorType (NewColor16 n) = ColorType16 \<and> colorValue (NewColor16 n) = word_of_int n \<and>
      colorValue (NewColor16 n) \<le> 15) \<and>
   ColorType (NewColor256 v) = ColorType256 \<and> colorValue (NewColor256 v) = ucast v \<and>
   colorValue (NewColor256 v) \<le> 255 \<and>
   ColorType (NewColor24Bit r g b) = ColorType24bit \<and> channels (NewColor24Bit r g b) = (r, g, b)"
proof -
  have "colorValue (NewColor16 n) \<le> 15" if "0 \<le> n" "n \<le> 15"
  proof -
    from that have "n \<in> {0,1,2,3,4,5,6,7,8,9,10,11,12,13,14,15}" by simp arith
    then show ?thesis
      by (auto simp: colorValue_def NewColor16_def newColor_def ColorType16_def)
  qed
  then show ?thesis
    by (simp add: ColorType_NewColor16 colorValue_NewColor16 ColorType_NewColor256
        colorValue_NewColor256 ucast_le_255 ColorType_NewColor24Bit channels_NewColor24Bit)
qed

theorem color_constructors_valid_witness:
  "(0::int) \<le> 7 \<and> (7::int) \<le> 15 \<and>
   ColorType (NewColor16 7) = ColorType16 \<and> colorValue (NewColor16 7) = 7 \<and>
   colorValue (NewColor16 7) \<le> 15"
proof -
  have h: "(0::int) \<le> 7 \<and> (7::int) \<le> 15" by simp
  from color_constructors_valid [of 7, THEN conjunct1, THEN mp, OF h] h
  show ?thesis by simp
qed

theorem NewColor16_counterexample:
  "\<not> (ColorType (NewColor16 16777216) = ColorType16) \<and> \<not> (colorValue (NewColor16 16) \<le> 15)"
  by (simp add: ColorType_def colorValue_def NewColor16_def newColor_def ColorType16_def)

text \<open>
  Claim C6. \<^verbatim>\<open>Distance\<close> tests the color type of its receiver only. With black as
  the receiver and the default color as the other argument it does not panic: it reads
  the value bits of the default color, which are zero, and returns the distance 0 from
  black to black. With the arguments exchanged it panics.
\<close>

theorem Distance_other_Default:
  "Distance (NewColor24Bit 0 0 0) ColorDefault = Inr 0 \<and>
   Distance ColorDefault (NewColor24Bit 0 0 0) = Inl PanicContrast"
proof -
  have "chromaDistance (0, 0, 0) (0, 0, 0) = 0"
    by (simp add: chromaDistance_def chromaDistanceSquared_def)
  then have "Distance (NewColor24Bit 0 0 0) ColorDefault = Inr 0"
    by (simp add: Distance_def ColorType_NewColor24Bit channels_NewColor24Bit channels_ColorDefault)
  moreover have "ColorType ColorDefault = ColorTypeDefault"
    by (simp add: ColorType_def ColorDefault_def newColor_def ColorTypeDefault_def)
  then have "Distance ColorDefault (NewColor24Bit 0 0 0) = Inl PanicContrast"
    by (simp add: Distance_def ColorTypeDefault_def ColorType24bit_def)
  ultimately show ?thesis by simp
qed

text \<open>
  Claim C8. A color of the default type renders as the escape character, an opening
  bracket, the digit 3 for the foreground or 4 for the background, and \<^verbatim>\<open>9m\<close>, whatever
  the terminal color count is. The rendering does not go through \<^verbatim>\<open>downsampleTo\<close>, which
  panics on every color of the default type, and it does not fail.
\<close>

theorem ansiString_Default:
  assumes "ColorType color = ColorTypeDefault"
  shows "ansiString color foreground terminalColorCount =
           Inr ([CHR 0x1B, CHR ''[''] @ (if foreground then ''3'' else ''4'') @ ''9m'') \<and>
         ForegroundAnsiString color terminalColorCount = Inr [CHR 0x1B, CHR ''['', CHR ''3'', CHR ''9'', CHR ''m''] \<and>
         BackgroundAnsiString color terminalColorCount = Inr [CHR 0x1B, CHR ''['', CHR ''4'', CHR ''9'', CHR ''m''] \<and>
         downsampleTo color terminalColorCount = Inl PanicDownsampleDefault"
  using assms
  by (simp add: ansiString_def ForegroundAnsiString_def BackgroundAnsiString_def downsampleTo_def)

theorem ansiString_Default_witness:
  "ColorType ColorDefault = ColorTypeDefault \<and>
   ForegroundAnsiString ColorDefault ColorType16 = Inr [CHR 0x1B, CHR ''['', CHR ''3'', CHR ''9'', CHR ''m''] \<and>
   BackgroundAnsiString ColorDefault ColorType24bit = Inr [CHR 0x1B, CHR ''['', CHR ''4'', CHR ''9'', CHR ''m'']"
proof -
  have h: "ColorType ColorDefault = ColorTypeDefault"
    by (simp add: ColorType_def ColorDefault_def newColor_def ColorTypeDefault_def)
  from ansiString_Default [OF h, of True ColorType16] ansiString_Default [OF h, of True ColorType24bit] h
  show ?thesis by simp
qed

text \<open>
  Claim C2, as amended. For a color of the 24-bit type or of the 256-color type and a
  target of the 16-color or the 256-color type below the type of the color,
  \<^verbatim>\<open>downsampleTo\<close> returns a color. For the 16-color target it carries the 16-color tag.
  For the 256-color target it carries the 16-color tag when the nearest palette index is
  at most 15, and the 256-color tag otherwise: the source returns \<^verbatim>\<open>NewColor16(bestMatch)\<close>
  whenever \<^verbatim>\<open>bestMatch <= 15\<close>. Black, whose nearest palette index is 0, comes back from
  the 256-color target with the 16-color tag.
\<close>

theorem downsampleTo_tag:
  assumes "ColorType color = ColorType24bit \<or> ColorType color = ColorType256"
    and "terminalColorCount = ColorType16 \<or> terminalColorCount = ColorType256"
    and "terminalColorCount < ColorType color"
  shows "\<exists>r. downsampleTo color terminalColorCount = Inr r \<and>
           (terminalColorCount = ColorType16 \<longrightarrow> ColorType r = ColorType16) \<and>
           (terminalColorCount = ColorType256 \<longrightarrow>
              ColorType r = (if bestIndex (channels color) 255 \<le> 15 then ColorType16
                             else ColorType256))"
proof (cases "terminalColorCount = ColorType16")
  case True
  have t: "ColorType (NewColor16 (int (bestIndex x 15))) = ColorType16" for x
    using bestIndex_le [of x 15] by (intro ColorType_NewColor16) simp_all
  from assms(1) show ?thesis
  proof
    assume "ColorType color = ColorType24bit"
    from downsampleTo_24bit_16 [OF this] True t show ?thesis by simp
  next
    assume "ColorType color = ColorType256"
    from downsampleTo_256_16 [OF this] True t show ?thesis by simp
  qed
next
  case False
  with assms(2) have tc: "terminalColorCount = ColorType256" by simp
  with assms(1,3) have c: "ColorType color = ColorType24bit" by auto
  have "ColorType (NewColor16 (int (bestIndex (channels color) 255))) = ColorType16"
    if "bestIndex (channels color) 255 \<le> 15"
    using that by (intro ColorType_NewColor16) simp_all
  with downsampleTo_24bit_256 [OF c] tc show ?thesis
    by (simp add: ColorType_NewColor256)
qed

theorem downsampleTo_tag_witness:
  "(ColorType (NewColor24Bit 0 0 0) = ColorType24bit \<or> ColorType (NewColor24Bit 0 0 0) = ColorType256) \<and>
   (ColorType256 = ColorType16 \<or> ColorType256 = ColorType256) \<and>
   ColorType256 < ColorType (NewColor24Bit 0 0 0) \<and>
   (\<exists>r. downsampleTo (NewColor24Bit 0 0 0) ColorType256 = Inr r \<and>
           (ColorType256 = ColorType16 \<longrightarrow> ColorType r = ColorType16) \<and>
           (ColorType256 = ColorType256 \<longrightarrow>
              ColorType r = (if bestIndex (channels (NewColor24Bit 0 0 0)) 255 \<le> 15 then ColorType16
                             else ColorType256)))"
proof -
  have h1: "ColorType (NewColor24Bit 0 0 0) = ColorType24bit \<or> ColorType (NewColor24Bit 0 0 0) = ColorType256"
    by (simp add: ColorType_NewColor24Bit)
  have h2: "ColorType256 = ColorType16 \<or> ColorType256 = ColorType256" by simp
  have h3: "ColorType256 < ColorType (NewColor24Bit 0 0 0)"
    by (simp add: ColorType_NewColor24Bit ColorType256_def ColorType24bit_def)
  from h1 h2 h3 downsampleTo_tag [OF h1 h2 h3] show ?thesis by blast
qed

theorem downsampleTo_tag_counterexample:
  "downsampleTo (NewColor24Bit 0 0 0) ColorType256 = Inr (NewColor16 0) \<and>
   ColorType (NewColor16 0) \<noteq> ColorType256"
  using downsampleTo_black_256 ColorType_NewColor16 [of 0] by simp

text \<open>
  Claim C3, as amended. For a 24-bit color whose downsampling to the 256-color level is
  a color of the 16-color type (the nearest of the 256 palette entries is one of the first
  16), downsampling that result to the 16-color level returns it unchanged, and it is
  also what downsampling the original to the 16-color level returns. When the nearest of
  the 256 entries has an index above 15 the two paths can part: the color (0, 55, 175)
  goes to palette index 25, and from there to the 16-color index 6, but directly to the
  16-color index 4.
\<close>

theorem downsampleTo_two_step:
  assumes "ColorType color = ColorType24bit"
  shows "\<exists>m. downsampleTo color ColorType256 = Inr m \<and>
           (ColorType m = ColorType16 \<longrightarrow>
              downsampleTo m ColorType16 = Inr m \<and> downsampleTo color ColorType16 = Inr m)"
proof -
  define b where "b = bestIndex (channels color) 255"
  define m where "m = (if b \<le> 15 then NewColor16 (int b) else NewColor256 (of_nat b))"
  have m: "downsampleTo color ColorType256 = Inr m"
    using downsampleTo_24bit_256 [OF assms] by (simp add: m_def b_def)
  have "downsampleTo m ColorType16 = Inr m \<and> downsampleTo color ColorType16 = Inr m"
    if t: "ColorType m = ColorType16"
  proof -
    have b15: "b \<le> 15"
    proof (rule ccontr)
      assume "\<not> b \<le> 15"
      then have "ColorType m = ColorType256" by (simp add: m_def ColorType_NewColor256)
      with t show False by simp
    qed
    then have m16: "m = NewColor16 (int b)" by (simp add: m_def)
    have 1: "downsampleTo m ColorType16 = Inr m"
      using t by (simp add: downsampleTo_def)
    have "bestIndex (channels color) 15 = b"
      unfolding b_def bestIndex_def
      using b15 by (intro scanKeys_restrict) (simp_all add: b_def bestIndex_def)
    with downsampleTo_24bit_16 [OF assms] m16 have 2: "downsampleTo color ColorType16 = Inr m"
      by simp
    from 1 2 show ?thesis by simp
  qed
  with m show ?thesis by blast
qed

theorem downsampleTo_two_step_witness:
  "ColorType (NewColor24Bit 0 0 0) = ColorType24bit \<and>
   ColorType (NewColor16 0) = ColorType16 \<and>
   downsampleTo (NewColor24Bit 0 0 0) ColorType256 = Inr (NewColor16 0) \<and>
   downsampleTo (NewColor16 0) ColorType16 = Inr (NewColor16 0) \<and>
   downsampleTo (NewColor24Bit 0 0 0) ColorType16 = Inr (NewColor16 0)"
proof -
  have h: "ColorType (NewColor24Bit 0 0 0) = ColorType24bit" by (rule ColorType_NewColor24Bit)
  have t: "ColorType (NewColor16 0) = ColorType16" by (rule ColorType_NewColor16) simp_all
  from downsampleTo_two_step [OF h] obtain m where
    m: "downsampleTo (NewColor24Bit 0 0 0) ColorType256 = Inr m"
       "ColorType m = ColorType16 \<longrightarrow>
          downsampleTo m ColorType16 = Inr m \<and> downsampleTo (NewColor24Bit 0 0 0) ColorType16 = Inr m"
    by blast
  from m(1) downsampleTo_black_256 have "m = NewColor16 0" by simp
  with m t h downsampleTo_black_256 show ?thesis by simp
qed

theorem downsampleTo_two_step_counterexample:
  "downsampleTo (NewColor24Bit 0 55 175) ColorType256 = Inr (NewColor256 25) \<and>
   downsampleTo (NewColor256 25) ColorType16 = Inr (NewColor16 6) \<and>
   downsampleTo (NewColor24Bit 0 55 175) ColorType16 = Inr (NewColor16 4) \<and>
   NewColor16 6 \<noteq> NewColor16 4"
proof -
  have 1: "downsampleTo (NewColor24Bit 0 55 175) ColorType256 = Inr (NewColor256 25)"
    using downsampleTo_24bit_256 [OF ColorType_NewColor24Bit, of 0 55 175]
    by (simp add: channels_NewColor24Bit bestIndex_example_256)
  have "(ucast (colorValue (NewColor256 25)) :: 8 word) = 25"
    by (simp add: colorValue_NewColor256)
  then have 2: "downsampleTo (NewColor256 25) ColorType16 = Inr (NewColor16 6)"
    using downsampleTo_256_16 [OF ColorType_NewColor256, of 25]
    by (simp add: bestIndex_example_step)
  have 3: "downsampleTo (NewColor24Bit 0 55 175) ColorType16 = Inr (NewColor16 4)"
    using downsampleTo_24bit_16 [OF ColorType_NewColor24Bit, of 0 55 175]
    by (simp add: channels_NewColor24Bit bestIndex_example_16)
  have 4: "NewColor16 6 \<noteq> NewColor16 4"
    by (simp add: NewColor16_def newColor_def ColorType16_def)
  from 1 2 3 4 show ?thesis by simp
qed

end
